theory Spec2Isabelle
  imports Main
begin

section \<open>Messages (message.ts)\<close>

text \<open>
  Values of the TypeScript types \<open>unknown\<close> and \<open>Record<string, unknown>\<close> are
  modelled as JSON-like trees; an object is an association list of its keys.
\<close>

datatype json =
    JNull
  | JBool bool
  | JNumber int
  | JString string
  | JArray "json list"
  | JObject "(string \<times> json) list"

type_synonym json_record = "(string \<times> json) list"

datatype tool_call = ToolCall
  (tc_id: "string option")
  (tc_name: string)
  (tc_args: json_record)
  (tc_result: "json_record option")

datatype user_message = UserMessage (user_content: string)

datatype tool_result_message = ToolResultMessage
  (tool_call_id: "string option")
  (tool_name: string)
  (tool_content: json_record)

datatype system_message = SystemMessage (system_content: string)

text \<open>
  An assistant message may carry the context it was generated from, which holds messages
  again; the three types are mutually recursive.  The \<open>role\<close> tag of the source is the
  constructor of \<open>message\<close>.
\<close>

datatype ai_message = AIMessage
    (ai_content: string)
    (ai_tool_calls: "tool_call list option")
    (ai_context: "agent_response_generation_context option")
and agent_response_generation_context = AgentResponseGenerationContext
    (prompt_used: "message list option")
    (context_tool_calls: "tool_call list option")
and message =
    Assistant ai_message
  | User user_message
  | Tool tool_result_message
  | System system_message

fun role :: "message \<Rightarrow> string" where
  "role (Assistant m) = ''assistant''"
| "role (User m) = ''user''"
| "role (Tool m) = ''tool''"
| "role (System m) = ''system''"


section \<open>Errors, promises and external calls\<close>

text \<open>
  A thrown \<open>Error\<close> (or any rejection value of a collaborator) is a value; a settled
  promise is either the rejection or the value it resolved to.  An asynchronous operation
  is a function from the state it runs in to its settled promise and the state it leaves;
  \<open>bind_io\<close> is \<open>await\<close> followed by the rest of the function body: a rejection
  propagates, skipping the rest.
\<close>

datatype error = Error string

type_synonym 'a promise = "error + 'a"

type_synonym ('s, 'a) io = "'s \<Rightarrow> 'a promise \<times> 's"

definition return_io :: "'a \<Rightarrow> ('s, 'a) io" where
  "return_io x = (\<lambda>s. (Inr x, s))"

definition throw_io :: "error \<Rightarrow> ('s, 'a) io" where
  "throw_io e = (\<lambda>s. (Inl e, s))"

definition bind_io :: "('s, 'a) io \<Rightarrow> ('a \<Rightarrow> ('s, 'b) io) \<Rightarrow> ('s, 'b) io" where
  "bind_io m f = (\<lambda>s. case m s of (Inl e, s') \<Rightarrow> (Inl e, s') | (Inr x, s') \<Rightarrow> f x s')"


section \<open>Criteria and their combinators (criteria/criterion.ts)\<close>

datatype status = Success | Failure

record 'o criterion_result =
  "output" :: 'o
  reason :: "string option"
  error :: "json option"
  status :: "status option"

text \<open>
  A criterion is an object: \<open>ref\<close> is its identity (the runner compares criteria with
  \<open>===\<close>), \<open>'w\<close> is the state of the world its \<open>evaluate\<close> may read and change (a judge
  model, a counter, ...).
\<close>

record ('o, 'w) criterion =
  ref :: nat
  name :: string
  evaluate :: "message list \<Rightarrow> ('w, 'o criterion_result) io"

definition negate_status :: "status option \<Rightarrow> status option" where
  "negate_status s =
     (if s = Some Success then Some Failure
      else if s = Some Failure then Some Success
      else s)"

text \<open>
  Each combinator builds a new object; its identity \<open>r\<close> is the first argument of the
  model.
\<close>

definition Criterion_negate :: "nat \<Rightarrow> ('o, 'w) criterion \<Rightarrow> ('o, 'w) criterion" where
  "Criterion_negate r c =
     \<lparr> ref = r,
       name = name c,
       evaluate = (\<lambda>params.
         bind_io (evaluate c params) (\<lambda>result.
           return_io (result\<lparr> status := negate_status (status result) \<rparr>))) \<rparr>"

text \<open>\<open>filter(Boolean)\<close> on optional strings keeps the ones that are present and not empty.\<close>

fun truthy :: "string option \<Rightarrow> string list" where
  "truthy None = []"
| "truthy (Some s) = (if s = [] then [] else [s])"

fun join :: "string \<Rightarrow> string list \<Rightarrow> string" where
  "join sep [] = []"
| "join sep [x] = x"
| "join sep (x # y # ys) = x @ sep @ join sep (y # ys)"

text \<open>
  \<open>Promise.all\<close> of two calls: both are started, the first criterion first, whatever the
  other does; the result rejects when one of them rejects (here: with the rejection of the
  first in the array, where JavaScript takes the first in time).
\<close>

definition Criterion_and ::
  "nat \<Rightarrow> ('a, 'w) criterion \<Rightarrow> ('b, 'w) criterion \<Rightarrow> ('a \<times> 'b, 'w) criterion" where
  "Criterion_and r c1 c2 =
     \<lparr> ref = r,
       name = name c1 @ '' AND '' @ name c2,
       evaluate = (\<lambda>params w.
         case evaluate c1 params w of (p1, w1) \<Rightarrow>
         case evaluate c2 params w1 of (p2, w2) \<Rightarrow>
           (case p1 of
              Inl e \<Rightarrow> Inl e
            | Inr result1 \<Rightarrow>
               (case p2 of
                  Inl e \<Rightarrow> Inl e
                | Inr result2 \<Rightarrow>
                    Inr \<lparr> output = (output result1, output result2),
                          reason = Some (join '' AND '' (truthy (reason result1) @ truthy (reason result2))),
                          error = None,
                          status = Some (if status result1 = Some Success \<and> status result2 = Some Success
                                         then Success else Failure) \<rparr>),
            w2)) \<rparr>"

definition Criterion_pipe ::
  "nat \<Rightarrow> ('a, 'w) criterion \<Rightarrow> ('a \<Rightarrow> 'b) \<Rightarrow> ('b, 'w) criterion" where
  "Criterion_pipe r c fn =
     \<lparr> ref = r,
       name = name c,
       evaluate = (\<lambda>params.
         bind_io (evaluate c params) (\<lambda>result.
           return_io \<lparr> output = fn (output result), reason = reason result,
                       error = error result, status = status result \<rparr>)) \<rparr>"


section \<open>Collaborators and the calls made on them (agent.ts, segment.ts)\<close>

datatype agent_invocation_result = AgentInvocationResult (response_message: ai_message)

record 'w agent =
  invoke :: "message list \<Rightarrow> ('w, agent_invocation_result) io"

record 'w synthetic_user =
  respond :: "message list \<Rightarrow> ('w, user_message) io"

text \<open>
  The state of a run is the state of the world outside (which only the collaborators
  read and change) and the record of the calls the code has made on them, in order, with
  the argument of each call; a criterion is recorded by its identity.
\<close>

datatype call =
    Respond "message list"
  | Invoke "message list"
  | Evaluate nat "message list"
  | Factory

record 'w state =
  world :: 'w
  calls :: "call list"

definition call :: "call \<Rightarrow> ('w, 'a) io \<Rightarrow> ('w state, 'a) io" where
  "call c m = (\<lambda>\<sigma>. case m (world \<sigma>) of (p, w') \<Rightarrow> (p, \<lparr> world = w', calls = calls \<sigma> @ [c] \<rparr>))"


section \<open>Segments (segment.ts)\<close>

datatype ('o, 'w) segment_evaluation_promise =
    Eval "('o, 'w) criterion" "'o criterion_result promise"
  | Message message

type_synonym ('o, 'w) segment =
  "'w agent \<Rightarrow> message list \<Rightarrow> ('w state, ('o, 'w) segment_evaluation_promise list) io"

definition flatMap :: "('a \<Rightarrow> 'b list) \<Rightarrow> 'a list \<Rightarrow> 'b list" where
  "flatMap f xs = concat (map f xs)"

definition message_entries :: "('o, 'w) segment_evaluation_promise list \<Rightarrow> message list" where
  "message_entries segs = flatMap (\<lambda>seg. case seg of Message m \<Rightarrow> [m] | Eval c p \<Rightarrow> []) segs"

definition message :: "message \<Rightarrow> ('o, 'w) segment" where
  "message m = (\<lambda>agent previousActualMessages. return_io [Message m])"

definition agentResponse :: "('o, 'w) segment" where
  "agentResponse = (\<lambda>agent previousActualMessages.
     bind_io (call (Invoke previousActualMessages) (invoke agent previousActualMessages))
       (\<lambda>agentResponse. return_io [Message (Assistant (response_message agentResponse))]))"

text \<open>
  \<open>aiEval\<close> starts the evaluation and stores the promise without awaiting it: whether it
  resolves or rejects is not looked at here.
\<close>

definition aiEval :: "('o, 'w) criterion \<Rightarrow> ('o, 'w) segment" where
  "aiEval criterion = (\<lambda>agent previousActualMessages \<sigma>.
     if length previousActualMessages = 0
     then (Inl (Error ''Criterion evaluation appears before any messages''), \<sigma>)
     else (case call (Evaluate (ref criterion) previousActualMessages)
                     (evaluate criterion previousActualMessages) \<sigma> of
             (evalResult, \<sigma>') \<Rightarrow> (Inr [Eval criterion evalResult], \<sigma>')))"

text \<open>The view of the conversation given to the synthetic user (segment.ts, lines 88 to 94).\<close>

fun flip_role :: "message \<Rightarrow> message list" where
  "flip_role (User m) = [Assistant (AIMessage (user_content m) None None)]"
| "flip_role (Assistant m) = [User (UserMessage (ai_content m))]"
| "flip_role m = []"

text \<open>
  One pass through the body of the loop of \<open>userSimulation\<close>, up to the evaluation of
  \<open>until\<close> (lines 83 to 109): the entries so far are \<open>segs\<close>, the result is the entries
  with the two new messages, and what \<open>until\<close> says of the conversation.
\<close>

definition turn ::
  "'w synthetic_user \<Rightarrow> ('o, 'w) criterion \<Rightarrow> 'w agent \<Rightarrow> message list \<Rightarrow>
   ('o, 'w) segment_evaluation_promise list \<Rightarrow>
   ('w state, ('o, 'w) segment_evaluation_promise list \<times> 'o criterion_result) io" where
  "turn user until agent previousActualMessages segs =
     (let messages = previousActualMessages @ message_entries segs in
      bind_io (call (Respond (flatMap flip_role messages))
                    (respond user (flatMap flip_role messages))) (\<lambda>userResponse.
      let segs1 = segs @ [Message (User (UserMessage (user_content userResponse)))];
          messages1 = messages @ [User (UserMessage (user_content userResponse))] in
      bind_io (call (Invoke messages1) (invoke agent messages1)) (\<lambda>agentResponse.
      let segs2 = segs1 @ [Message (Assistant (response_message agentResponse))];
          messages2 = messages1 @ [Assistant (response_message agentResponse)] in
      bind_io (call (Evaluate (ref until) messages2) (evaluate until messages2))
        (\<lambda>breakConditionResult. return_io (segs2, breakConditionResult)))))"

text \<open>
  The loop \<open>for (let i = 0; i < maxIterations; i++)\<close>, from the value \<open>i\<close> of the counter
  on.  The count is an integer (fractions, infinities and NaN are left out).
\<close>

function userSimulation_loop ::
  "'w synthetic_user \<Rightarrow> ('o, 'w) criterion \<Rightarrow> 'w agent \<Rightarrow> message list \<Rightarrow> int \<Rightarrow> int \<Rightarrow>
   ('o, 'w) segment_evaluation_promise list \<Rightarrow>
   ('w state, ('o, 'w) segment_evaluation_promise list) io" where
  "userSimulation_loop user until agent previousActualMessages maxIterations i segs \<sigma> =
     (if i < maxIterations then
        (case turn user until agent previousActualMessages segs \<sigma> of
           (Inl e, \<sigma>') \<Rightarrow> (Inl e, \<sigma>')
         | (Inr (segs', breakConditionResult), \<sigma>') \<Rightarrow>
             if status breakConditionResult = Some Success
             then (Inr (segs' @ [Eval until (Inr breakConditionResult)]), \<sigma>')
             else if i = maxIterations - 1
             then (Inr (segs' @ [Eval until (Inr breakConditionResult)]), \<sigma>')
             else userSimulation_loop user until agent previousActualMessages maxIterations
                    (i + 1) segs' \<sigma>')
      else (Inr segs, \<sigma>))"
  by pat_completeness auto
termination
  by (relation "measure (\<lambda>(user, until, agent, previousActualMessages, maxIterations, i, segs, \<sigma>).
        nat (maxIterations - i))") auto

declare userSimulation_loop.simps [simp del]

definition userSimulation ::
  "'w synthetic_user \<Rightarrow> int option \<Rightarrow> ('o, 'w) criterion \<Rightarrow> ('o, 'w) segment" where
  "userSimulation user max' until = (\<lambda>agent previousActualMessages.
     let maxIterations = (case max' of None \<Rightarrow> 10 | Some m \<Rightarrow> m) in
     userSimulation_loop user until agent previousActualMessages maxIterations 0 [])"


section \<open>The runner (eval-runner.ts)\<close>

datatype ('o, 'w) evaluated_segment =
    EvaluatedMessage message
  | EvaluatedEval "'o criterion_result" "('o, 'w) criterion"

text \<open>The agent is given as it is, or as a factory that the runner calls once.\<close>

datatype 'w agent_param =
    AgentValue "'w agent"
  | AgentFactory "('w, 'w agent) io"

definition resolve_agent :: "'w agent_param \<Rightarrow> ('w state, 'w agent) io" where
  "resolve_agent agent =
     (case agent of AgentFactory f \<Rightarrow> call Factory f | AgentValue a \<Rightarrow> return_io a)"

text \<open>The loop over the segments; \<open>acc\<close> is \<open>evaluatedSegmentPromises\<close>.\<close>

fun run_segments ::
  "('o, 'w) segment list \<Rightarrow> 'w agent \<Rightarrow> ('o, 'w) segment_evaluation_promise list \<Rightarrow>
   ('w state, ('o, 'w) segment_evaluation_promise list) io" where
  "run_segments [] agent' acc = return_io acc"
| "run_segments (segment # rest) agent' acc =
     bind_io (segment agent' (message_entries acc))
       (\<lambda>segmentResult. run_segments rest agent' (acc @ segmentResult))"

fun settle :: "('o, 'w) segment_evaluation_promise \<Rightarrow> ('o, 'w) evaluated_segment promise" where
  "settle (Eval criterion evalResult) =
     (case evalResult of Inl e \<Rightarrow> Inl e | Inr r \<Rightarrow> Inr (EvaluatedEval r criterion))"
| "settle (Message m) = Inr (EvaluatedMessage m)"

text \<open>
  \<open>Promise.all\<close>: the values in the order of the promises, or a rejection when one of them
  rejects (the first of the list here, the first in time in JavaScript).
\<close>

fun Promise_all :: "'a promise list \<Rightarrow> 'a list promise" where
  "Promise_all [] = Inr []"
| "Promise_all (p # ps) =
     (case p of
        Inl e \<Rightarrow> Inl e
      | Inr x \<Rightarrow> (case Promise_all ps of Inl e \<Rightarrow> Inl e | Inr xs \<Rightarrow> Inr (x # xs)))"

definition await :: "'a promise \<Rightarrow> ('s, 'a) io" where
  "await p = (\<lambda>s. (p, s))"

text \<open>
  Modelled from the spec: \<open>groupBy\<close> of \<open>./utils\<close>, which is not among the sources.  The
  spec speaks of the buckets of \<open>resultsByStatus\<close> and reads the failure bucket of a run
  without evaluations as empty: the grouping gives, for every key, the items with that key
  in their order, and no item for a key that none has.
\<close>

definition groupBy :: "'a list \<Rightarrow> ('a \<Rightarrow> 'k) \<Rightarrow> ('k \<Rightarrow> 'a list)" where
  "groupBy xs key = (\<lambda>k. filter (\<lambda>x. key x = k) xs)"

datatype status_key = KSuccess | KFailure | KUnknown

text \<open>The key of an evaluation: \<open>r.evalResult.status ?? 'unknown'\<close>.\<close>

fun key_of :: "'o criterion_result \<times> ('o, 'w) criterion \<Rightarrow> status_key" where
  "key_of (evalResult, c) =
     (case status evalResult of
        None \<Rightarrow> KUnknown
      | Some Success \<Rightarrow> KSuccess
      | Some Failure \<Rightarrow> KFailure)"

text \<open>
  The entries that are grouped: \<open>r.type === 'eval' && r.evalResult.status ? [r] : []\<close>;
  a status that is missing is falsy.
\<close>

fun with_status ::
  "('o, 'w) evaluated_segment \<Rightarrow> ('o criterion_result \<times> ('o, 'w) criterion) list" where
  "with_status (EvaluatedEval evalResult c) =
     (if status evalResult \<noteq> None then [(evalResult, c)] else [])"
| "with_status (EvaluatedMessage m) = []"

record ('o, 'w) report =
  results :: "('o, 'w) evaluated_segment list"
  resultsByStatus :: "status_key \<Rightarrow> ('o criterion_result \<times> ('o, 'w) criterion) list"
  messages :: "message list"
  success :: bool

definition runner_evaluate ::
  "'w agent_param \<Rightarrow> ('o, 'w) segment list \<Rightarrow> ('w state, ('o, 'w) report) io" where
  "runner_evaluate agent segments =
     bind_io (resolve_agent agent) (\<lambda>agent'.
     bind_io (run_segments segments agent' []) (\<lambda>evaluatedSegmentPromises.
     bind_io (await (Promise_all (map settle evaluatedSegmentPromises))) (\<lambda>results.
     let resultsByStatus = groupBy (flatMap with_status results) key_of in
     return_io \<lparr> results = results,
                 resultsByStatus = resultsByStatus,
                 messages = message_entries evaluatedSegmentPromises,
                 success = (length (resultsByStatus KFailure) = 0) \<rparr>)))"

text \<open>
  The three lookups of the report; \<open>r.criterion === criterion\<close> compares the identities
  of the two objects.
\<close>

fun is_eval_of :: "('o, 'w) criterion \<Rightarrow> ('o, 'w) evaluated_segment \<Rightarrow> bool" where
  "is_eval_of criterion (EvaluatedEval evalResult c) = (ref c = ref criterion)"
| "is_eval_of criterion (EvaluatedMessage m) = False"

fun evalResult :: "('o, 'w) evaluated_segment \<Rightarrow> 'o criterion_result option" where
  "evalResult (EvaluatedEval r c) = Some r"
| "evalResult (EvaluatedMessage m) = None"

definition getResults :: "('o, 'w) report \<Rightarrow> ('o, 'w) criterion \<Rightarrow> 'o criterion_result list" where
  "getResults rep criterion =
     flatMap (\<lambda>r. if is_eval_of criterion r then (case evalResult r of Some x \<Rightarrow> [x] | None \<Rightarrow> []) else [])
       (results rep)"

definition getResult :: "('o, 'w) report \<Rightarrow> ('o, 'w) criterion \<Rightarrow> 'o criterion_result option" where
  "getResult rep criterion =
     (case find (is_eval_of criterion) (results rep) of
        None \<Rightarrow> None
      | Some res \<Rightarrow> evalResult res)"

definition getResultOrThrow ::
  "('o, 'w) report \<Rightarrow> ('o, 'w) criterion \<Rightarrow> error + 'o criterion_result" where
  "getResultOrThrow rep criterion =
     (case getResult rep criterion of
        None \<Rightarrow> Inl (Error (''Cannot find results for criterion '' @ name criterion))
      | Some res \<Rightarrow> Inr res)"


section \<open>Notions used to state the properties\<close>

text \<open>The content of a message, \<open>m.content\<close>: a string, or the record of a tool result.\<close>

fun content :: "message \<Rightarrow> json" where
  "content (Assistant m) = JString (ai_content m)"
| "content (User m) = JString (user_content m)"
| "content (Tool m) = JObject (tool_content m)"
| "content (System m) = JString (system_content m)"

text \<open>
  \<open>swapped m v\<close>: the message \<open>v\<close> has the content of \<open>m\<close> and the other one of the two roles
  user and assistant.
\<close>

definition swapped :: "message \<Rightarrow> message \<Rightarrow> bool" where
  "swapped m v =
     (content v = content m \<and> role v = (if role m = ''user'' then ''assistant'' else ''user''))"

text \<open>What an entry of a segment's result is: an evaluation, or a message of some role.\<close>

fun entry_role :: "('o, 'w) segment_evaluation_promise \<Rightarrow> string" where
  "entry_role (Eval c p) = ''eval''"
| "entry_role (Message m) = role m"

fun call_name :: "call \<Rightarrow> string" where
  "call_name (Respond ms) = ''respond''"
| "call_name (Invoke ms) = ''invoke''"
| "call_name (Evaluate r ms) = ''evaluate''"
| "call_name Factory = ''factory''"

text \<open>
  \<open>turns \<dots> n segs\<close> is \<open>n\<close> passes through the body of the loop of \<open>userSimulation\<close>, one
  after the other, none of them ending the loop: the entries after the last pass and what
  \<open>until\<close> said in each pass.  It serves to say in which pass \<open>until\<close> first succeeds.
\<close>

fun turns ::
  "'w synthetic_user \<Rightarrow> ('o, 'w) criterion \<Rightarrow> 'w agent \<Rightarrow> message list \<Rightarrow> nat \<Rightarrow>
   ('o, 'w) segment_evaluation_promise list \<Rightarrow>
   ('w state, ('o, 'w) segment_evaluation_promise list \<times> 'o criterion_result list) io" where
  "turns user until agent prev 0 segs = return_io (segs, [])"
| "turns user until agent prev (Suc n) segs =
     bind_io (turn user until agent prev segs) (\<lambda>(segs', r).
     bind_io (turns user until agent prev n segs') (\<lambda>(segs'', rs).
     return_io (segs'', r # rs)))"

text \<open>The segments that the four functions of segment.ts make.\<close>

inductive standard :: "('o, 'w) segment \<Rightarrow> bool" where
  "standard (message m)"
| "standard agentResponse"
| "standard (aiEval criterion)"
| "standard (userSimulation user max' until)"


section \<open>Example collaborators\<close>

text \<open>
  A synthetic user who always says hello, an agent that always answers hi, and three
  criteria that count the messages: one that always fails, one that never determines a
  status, one that succeeds from four messages on; and a criterion that rejects.  Their
  world has no state.
\<close>

definition example_user :: "unit synthetic_user" where
  "example_user = \<lparr> respond = (\<lambda>messages. return_io (UserMessage ''hello'')) \<rparr>"

definition example_agent :: "unit agent" where
  "example_agent =
     \<lparr> invoke = (\<lambda>messages. return_io (AgentInvocationResult (AIMessage ''hi'' None None))) \<rparr>"

definition never_satisfied :: "(nat, unit) criterion" where
  "never_satisfied =
     \<lparr> ref = 1, name = ''never'',
       evaluate = (\<lambda>messages. return_io
         \<lparr> output = length messages, reason = Some ''not yet'', error = None,
           status = Some Failure \<rparr>) \<rparr>"

definition undetermined :: "(nat, unit) criterion" where
  "undetermined =
     \<lparr> ref = 2, name = ''undetermined'',
       evaluate = (\<lambda>messages. return_io
         \<lparr> output = length messages, reason = None, error = None, status = None \<rparr>) \<rparr>"

definition long_enough :: "(nat, unit) criterion" where
  "long_enough =
     \<lparr> ref = 3, name = ''long enough'',
       evaluate = (\<lambda>messages. return_io
         \<lparr> output = length messages, reason = Some ''counted'', error = None,
           status = Some (if 4 \<le> length messages then Success else Failure) \<rparr>) \<rparr>"

definition unavailable :: "(nat, unit) criterion" where
  "unavailable =
     \<lparr> ref = 4, name = ''unavailable'',
       evaluate = (\<lambda>messages. throw_io (Error ''judge unavailable'')) \<rparr>"

definition start :: "unit state" where
  "start = \<lparr> world = (), calls = [] \<rparr>"

definition hello :: message where
  "hello = User (UserMessage ''hello'')"

definition hi :: message where
  "hi = Assistant (AIMessage ''hi'' None None)"

text \<open>
  A run of three segments: a message, then a criterion that fails on it, then a
  criterion that leaves the status open.
\<close>

definition example_run :: "(nat, unit) report promise \<times> unit state" where
  "example_run =
     runner_evaluate (AgentValue example_agent)
       [message hello, aiEval never_satisfied, aiEval undetermined] start"

text \<open>A run without evaluations: a message and the answer of the agent.\<close>

definition greeting_run :: "(nat, unit) report promise \<times> unit state" where
  "greeting_run =
     runner_evaluate (AgentValue example_agent) [message hello, agentResponse] start"

section \<open>Criterion combinators\<close>

text \<open>
  C7.  \<open>negate(c)\<close> has the name of \<open>c\<close>; it rejects when \<open>c\<close> rejects, and otherwise gives the
  result of \<open>c\<close> with the same output, reason and error, where a status success has become
  failure, failure has become success and a missing status is still missing.  Negating
  twice gives back what \<open>c\<close> gives on the same messages, status included.
\<close>

theorem negate_flips_status:
  "name (Criterion_negate r c) = name c
   \<and> evaluate (Criterion_negate r c) msgs w =
       (case evaluate c msgs w of
          (Inl e, w') \<Rightarrow> (Inl e, w')
        | (Inr result, w') \<Rightarrow>
            (Inr \<lparr> output = output result, reason = reason result, error = error result,
                   status = (case status result of
                               None \<Rightarrow> None
                             | Some Success \<Rightarrow> Some Failure
                             | Some Failure \<Rightarrow> Some Success) \<rparr>, w'))
   \<and> evaluate (Criterion_negate r' (Criterion_negate r c)) msgs w = evaluate c msgs w"
  by (auto simp: Criterion_negate_def bind_io_def return_io_def negate_status_def
           split: prod.splits sum.splits option.splits status.splits)

theorem negate_flips_status_witness:
  "name (Criterion_negate 7 long_enough) = ''long enough''
   \<and> evaluate (Criterion_negate 7 long_enough) [hello, hi] () =
        (Inr \<lparr> output = 2, reason = Some ''counted'', error = None, status = Some Success \<rparr>, ())
   \<and> evaluate (Criterion_negate 7 undetermined) [hello, hi] () =
        (Inr \<lparr> output = 2, reason = None, error = None, status = None \<rparr>, ())
   \<and> evaluate (Criterion_negate 8 (Criterion_negate 7 long_enough)) [hello, hi] () =
        (Inr \<lparr> output = 2, reason = Some ''counted'', error = None, status = Some Failure \<rparr>, ())"
  using negate_flips_status [of 7 long_enough "[hello, hi]" "()" 8]
        negate_flips_status [of 7 undetermined "[hello, hi]" "()" 8]
  by (simp add: long_enough_def undetermined_def return_io_def)

text \<open>
  C6.  When \<open>c1\<close> and then \<open>c2\<close> evaluate the messages to a result each, \<open>and(c1, c2)\<close>
  evaluates them to a result whose status is success if both are success and failure in
  every other case (a missing status on either side included), whose output is the pair
  of the two outputs and whose reason is made of the reasons that are present and not
  empty, with \<open>" AND "\<close> between them when there are two.  Its name is the two names with
  \<open>" AND "\<close> between them.
\<close>

theorem and_combines_results:
  assumes "evaluate c1 msgs w = (Inr result1, w1)"
    and "evaluate c2 msgs w1 = (Inr result2, w2)"
  shows "name (Criterion_and r c1 c2) = name c1 @ '' AND '' @ name c2
    \<and> (\<exists>result. evaluate (Criterion_and r c1 c2) msgs w = (Inr result, w2)
          \<and> (status result = Some Success \<longleftrightarrow>
                status result1 = Some Success \<and> status result2 = Some Success)
          \<and> (status result = Some Failure \<longleftrightarrow>
                \<not> (status result1 = Some Success \<and> status result2 = Some Success))
          \<and> output result = (output result1, output result2)
          \<and> reason result = Some
               (let a = reason result1; b = reason result2;
                    has_a = (a \<noteq> None \<and> a \<noteq> Some []); has_b = (b \<noteq> None \<and> b \<noteq> Some [])
                in if has_a \<and> has_b then the a @ '' AND '' @ the b
                   else if has_a then the a
                   else if has_b then the b
                   else []))"
  using assms
  by (cases "reason result1"; cases "reason result2")
     (auto simp: Criterion_and_def Let_def)

theorem and_combines_results_witness:
  "name (Criterion_and 9 long_enough undetermined) = ''long enough AND undetermined''
   \<and> (\<exists>result. evaluate (Criterion_and 9 long_enough undetermined) [hello, hi, hello, hi] () =
          (Inr result, ())
        \<and> status result = Some Failure
        \<and> output result = (4, 4)
        \<and> reason result = Some ''counted'')
   \<and> (\<exists>result. evaluate (Criterion_and 9 long_enough long_enough) [hello, hi, hello, hi] () =
          (Inr result, ())
        \<and> status result = Some Success
        \<and> output result = (4, 4)
        \<and> reason result = Some ''counted AND counted'')"
proof -
  let ?ms = "[hello, hi, hello, hi]"
  have l: "evaluate long_enough ?ms () =
             (Inr \<lparr> output = 4, reason = Some ''counted'', error = None, status = Some Success \<rparr>, ())"
    by (simp add: long_enough_def return_io_def)
  have u: "evaluate undetermined ?ms () =
             (Inr \<lparr> output = 4, reason = None, error = None, status = None \<rparr>, ())"
    by (simp add: undetermined_def return_io_def)
  have names: "name long_enough = ''long enough''" "name undetermined = ''undetermined''"
    by (simp_all add: long_enough_def undetermined_def)
  from and_combines_results [OF l u, of 9] and_combines_results [OF l l, of 9]
  show ?thesis
    by (auto simp: names Let_def)
qed


section \<open>The loop of \<open>userSimulation\<close>\<close>

lemma message_entries_append:
  "message_entries (xs @ ys) = message_entries xs @ message_entries ys"
  by (simp add: message_entries_def flatMap_def)

lemma message_entries_simps:
  "message_entries [] = []"
  "message_entries (Message m # xs) = m # message_entries xs"
  "message_entries (Eval c p # xs) = message_entries xs"
  by (simp_all add: message_entries_def flatMap_def)

text \<open>What a pass that reaches its end has done.\<close>

lemma turn_result:
  assumes "turn user until agent prev segs \<sigma> = (Inr (segs', r), \<sigma>')"
  shows "\<exists>u a w. segs' = segs @ [Message (User u), Message (Assistant a)]
           \<and> calls \<sigma>' = calls \<sigma> @
                 [Respond (flatMap flip_role (prev @ message_entries segs)),
                  Invoke (prev @ message_entries segs @ [User u]),
                  Evaluate (ref until) (prev @ message_entries segs')]
           \<and> evaluate until (prev @ message_entries segs') w = (Inr r, world \<sigma>')"
  using assms
  apply (simp add: turn_def Let_def bind_io_def return_io_def call_def split: prod.splits sum.splits)
  apply (auto simp: message_entries_append message_entries_simps)
  done

lemma turns_Suc:
  assumes "turns user until agent prev (Suc n) segs \<sigma> = (Inr (segs', rs), \<sigma>')"
  shows "\<exists>segs1 r1 \<sigma>1 rs1.
           turn user until agent prev segs \<sigma> = (Inr (segs1, r1), \<sigma>1)
         \<and> turns user until agent prev n segs1 \<sigma>1 = (Inr (segs', rs1), \<sigma>')
         \<and> rs = r1 # rs1"
  using assms by (auto simp: bind_io_def return_io_def split: prod.splits sum.splits)

lemma turns_shape:
  "turns user until agent prev n segs \<sigma> = (Inr (segs', rs), \<sigma>') \<Longrightarrow>
     length rs = n
     \<and> (\<exists>new cs. segs' = segs @ new
            \<and> map entry_role new = concat (replicate n [''user'', ''assistant''])
            \<and> calls \<sigma>' = calls \<sigma> @ cs
            \<and> map call_name cs = concat (replicate n [''respond'', ''invoke'', ''evaluate'']))"
proof (induction n arbitrary: segs \<sigma> segs' rs \<sigma>')
  case 0
  then show ?case by (simp add: return_io_def)
next
  case (Suc n)
  from turns_Suc [OF Suc.prems] obtain segs1 r1 \<sigma>1 rs1 where
    t: "turn user until agent prev segs \<sigma> = (Inr (segs1, r1), \<sigma>1)" and
    ts: "turns user until agent prev n segs1 \<sigma>1 = (Inr (segs', rs1), \<sigma>')" and
    rs: "rs = r1 # rs1"
    by blast
  from turn_result [OF t] obtain u a where
    s1: "segs1 = segs @ [Message (User u), Message (Assistant a)]" and
    c1: "calls \<sigma>1 = calls \<sigma> @
                 [Respond (flatMap flip_role (prev @ message_entries segs)),
                  Invoke (prev @ message_entries segs @ [User u]),
                  Evaluate (ref until) (prev @ message_entries segs1)]"
    by blast
  from Suc.IH [OF ts] obtain new cs where
    l: "length rs1 = n" and
    s2: "segs' = segs1 @ new" and
    r2: "map entry_role new = concat (replicate n [''user'', ''assistant''])" and
    c2: "calls \<sigma>' = calls \<sigma>1 @ cs" and
    n2: "map call_name cs = concat (replicate n [''respond'', ''invoke'', ''evaluate''])"
    by blast
  show ?case
    apply (rule conjI)
     apply (simp add: rs l)
    apply (rule exI [of _ "[Message (User u), Message (Assistant a)] @ new"])
    apply (rule exI [of _ "[Respond (flatMap flip_role (prev @ message_entries segs)),
                  Invoke (prev @ message_entries segs @ [User u]),
                  Evaluate (ref until) (prev @ message_entries segs1)] @ cs"])
    apply (simp add: s1 s2 r2 c1 c2 n2)
    done
qed

text \<open>
  The loop and the passes: when \<open>n\<close> passes reach their end and only the last of them may
  have seen \<open>until\<close> succeed, and either it has, or it is the last pass the bound allows,
  the loop returns after these \<open>n\<close> passes.
\<close>

lemma loop_turns:
  "turns user until agent prev n segs \<sigma> = (Inr (segs', rs), \<sigma>') \<Longrightarrow>
   0 < n \<Longrightarrow> i + int n \<le> N \<Longrightarrow>
   \<forall>r \<in> set (butlast rs). status r \<noteq> Some Success \<Longrightarrow>
   status (last rs) = Some Success \<or> i + int n = N \<Longrightarrow>
   userSimulation_loop user until agent prev N i segs \<sigma> =
     (Inr (segs' @ [Eval until (Inr (last rs))]), \<sigma>')"
proof (induction n arbitrary: i segs \<sigma> segs' rs \<sigma>')
  case 0
  then show ?case by simp
next
  case (Suc n)
  from turns_Suc [OF Suc.prems(1)] obtain segs1 r1 \<sigma>1 rs1 where
    t: "turn user until agent prev segs \<sigma> = (Inr (segs1, r1), \<sigma>1)" and
    ts: "turns user until agent prev n segs1 \<sigma>1 = (Inr (segs', rs1), \<sigma>')" and
    rs: "rs = r1 # rs1"
    by blast
  have iN: "i < N" using Suc.prems(3) by simp
  show ?case
  proof (cases n)
    case 0
    with ts rs have e: "segs' = segs1" "\<sigma>' = \<sigma>1" "rs = [r1]"
      by (simp_all add: return_io_def)
    from Suc.prems(5) e 0 have "status r1 = Some Success \<or> i = N - 1" by auto
    then show ?thesis
      using iN t e by (subst userSimulation_loop.simps) auto
  next
    case (Suc n')
    from turns_shape [OF ts] have "length rs1 = n" by blast
    with Suc have ne: "rs1 \<noteq> []" by auto
    then have "r1 \<in> set (butlast rs)" "last rs = last rs1" "set (butlast rs1) \<subseteq> set (butlast rs)"
      using rs by auto
    with Suc.prems(4) have f1: "status r1 \<noteq> Some Success"
      and f2: "\<forall>r \<in> set (butlast rs1). status r \<noteq> Some Success" by auto
    have nl: "i \<noteq> N - 1" using Suc.prems(3) Suc by simp
    have "userSimulation_loop user until agent prev N (i + 1) segs1 \<sigma>1 =
            (Inr (segs' @ [Eval until (Inr (last rs1))]), \<sigma>')"
      using Suc.IH [OF ts, of "i + 1"] Suc Suc.prems(3,5) f2 \<open>last rs = last rs1\<close> by auto
    then show ?thesis
      using iN t f1 nl \<open>last rs = last rs1\<close> by (subst userSimulation_loop.simps) auto
  qed
qed

lemma turns_last:
  "turns user until agent prev n segs \<sigma> = (Inr (segs', rs), \<sigma>') \<Longrightarrow> 0 < n \<Longrightarrow>
     \<exists>w cs. evaluate until (prev @ message_entries segs') w = (Inr (last rs), world \<sigma>')
          \<and> calls \<sigma>' = cs @ [Evaluate (ref until) (prev @ message_entries segs')]"
proof (induction n arbitrary: segs \<sigma> segs' rs \<sigma>')
  case 0
  then show ?case by simp
next
  case (Suc n)
  from turns_Suc [OF Suc.prems(1)] obtain segs1 r1 \<sigma>1 rs1 where
    t: "turn user until agent prev segs \<sigma> = (Inr (segs1, r1), \<sigma>1)" and
    ts: "turns user until agent prev n segs1 \<sigma>1 = (Inr (segs', rs1), \<sigma>')" and
    rs: "rs = r1 # rs1"
    by blast
  show ?case
  proof (cases n)
    case 0
    with ts rs have e: "segs' = segs1" "\<sigma>' = \<sigma>1" "rs = [r1]"
      by (simp_all add: return_io_def)
    from turn_result [OF t] show ?thesis unfolding e by auto
  next
    case (Suc n')
    from turns_shape [OF ts] have "length rs1 = n" by blast
    with Suc have "rs1 \<noteq> []" by auto
    then have "last rs = last rs1" using rs by simp
    then show ?thesis using Suc.IH [OF ts] Suc by simp
  qed
qed

lemma turn_total:
  assumes "\<forall>ms w. \<exists>u w'. respond user ms w = (Inr u, w')"
    and "\<forall>ms w. \<exists>a w'. invoke agent ms w = (Inr a, w')"
    and "\<forall>ms w. \<exists>r w'. evaluate until ms w = (Inr r, w') \<and> status r \<noteq> Some Success"
  shows "\<exists>segs' r \<sigma>'. turn user until agent prev segs \<sigma> = (Inr (segs', r), \<sigma>')
           \<and> status r \<noteq> Some Success"
proof -
  let ?m = "prev @ message_entries segs"
  from assms(1) obtain u w1 where
    u: "respond user (flatMap flip_role ?m) (world \<sigma>) = (Inr u, w1)" by blast
  from assms(2) obtain a w2 where
    a: "invoke agent (?m @ [User (UserMessage (user_content u))]) w1 = (Inr a, w2)" by blast
  from assms(3) obtain r w3 where
    r: "evaluate until (?m @ [User (UserMessage (user_content u))] @ [Assistant (response_message a)]) w2
          = (Inr r, w3)" "status r \<noteq> Some Success" by blast
  show ?thesis
    using u a r by (simp add: turn_def Let_def bind_io_def return_io_def call_def)
qed

lemma turns_total:
  assumes "\<forall>ms w. \<exists>u w'. respond user ms w = (Inr u, w')"
    and "\<forall>ms w. \<exists>a w'. invoke agent ms w = (Inr a, w')"
    and "\<forall>ms w. \<exists>r w'. evaluate until ms w = (Inr r, w') \<and> status r \<noteq> Some Success"
  shows "\<exists>segs' rs \<sigma>'. turns user until agent prev n segs \<sigma> = (Inr (segs', rs), \<sigma>')
           \<and> (\<forall>r \<in> set rs. status r \<noteq> Some Success)"
proof (induction n arbitrary: segs \<sigma>)
  case 0
  show ?case by (simp add: return_io_def)
next
  case (Suc n)
  from turn_total [OF assms] obtain segs1 r1 \<sigma>1 where
    t: "turn user until agent prev segs \<sigma> = (Inr (segs1, r1), \<sigma>1)" "status r1 \<noteq> Some Success"
    by blast
  from Suc.IH obtain segs' rs \<sigma>' where
    ts: "turns user until agent prev n segs1 \<sigma>1 = (Inr (segs', rs), \<sigma>')"
        "\<forall>r \<in> set rs. status r \<noteq> Some Success"
    by blast
  show ?case using t ts by (simp add: bind_io_def return_io_def)
qed

lemma length_of_roles:
  assumes "map entry_role segs = concat (replicate n [''user'', ''assistant''])"
  shows "length segs = 2 * n"
  using arg_cong [OF assms, of length] by (simp add: length_concat sum_list_replicate)

text \<open>
  C1, as amended.  Let the synthetic user and the agent always answer, let \<open>until\<close> always
  give a result and never one with status success, and let the bound \<open>N\<close> (the given
  \<open>max\<close>, or 10) be at least 1.  Then \<open>userSimulation\<close> does not throw; it returns
  \<open>2N\<close> message entries, a user message and an assistant message by turns, and then one
  evaluation of \<open>until\<close>, already resolved: the result of the last call of the run, which
  evaluates \<open>until\<close> on the whole conversation, with a status other than success.  The
  run makes \<open>N\<close> calls of each kind.
\<close>

theorem userSimulation_exhausted:
  assumes user_responds: "\<forall>ms w. \<exists>u w'. respond user ms w = (Inr u, w')"
    and agent_responds: "\<forall>ms w. \<exists>a w'. invoke agent ms w = (Inr a, w')"
    and never_success:
      "\<forall>ms w. \<exists>r w'. evaluate until ms w = (Inr r, w') \<and> status r \<noteq> Some Success"
    and N: "N = (case max' of None \<Rightarrow> 10 | Some m \<Rightarrow> m)"
    and positive: "1 \<le> N"
  shows "\<exists>segs r \<sigma>' w cs.
           userSimulation user max' until agent prev \<sigma> = (Inr (segs @ [Eval until (Inr r)]), \<sigma>')
         \<and> length segs = 2 * nat N
         \<and> map entry_role segs = concat (replicate (nat N) [''user'', ''assistant''])
         \<and> status r \<noteq> Some Success
         \<and> evaluate until (prev @ message_entries segs) w = (Inr r, world \<sigma>')
         \<and> calls \<sigma>' = calls \<sigma> @ cs
         \<and> map call_name cs = concat (replicate (nat N) [''respond'', ''invoke'', ''evaluate''])
         \<and> last cs = Evaluate (ref until) (prev @ message_entries segs)"
proof -
  from turns_total [OF assms(1-3)] obtain segs rs \<sigma>' where
    ts: "turns user until agent prev (nat N) [] \<sigma> = (Inr (segs, rs), \<sigma>')" and
    ns: "\<forall>r \<in> set rs. status r \<noteq> Some Success"
    by blast
  have pos: "0 < nat N" using positive by simp
  from turns_shape [OF ts] obtain cs where
    l: "length rs = nat N" and
    roles: "map entry_role segs = concat (replicate (nat N) [''user'', ''assistant''])" and
    c: "calls \<sigma>' = calls \<sigma> @ cs" and
    names: "map call_name cs = concat (replicate (nat N) [''respond'', ''invoke'', ''evaluate''])"
    by auto
  from turns_last [OF ts pos] obtain w cs' where
    w: "evaluate until (prev @ message_entries segs) w = (Inr (last rs), world \<sigma>')" and
    c': "calls \<sigma>' = cs' @ [Evaluate (ref until) (prev @ message_entries segs)]"
    by blast
  have "rs \<noteq> []" using l pos by auto
  then have lastr: "status (last rs) \<noteq> Some Success" using ns by simp
  have bl: "\<forall>r \<in> set (butlast rs). status r \<noteq> Some Success"
    using ns by (meson in_set_butlastD)
  have "cs \<noteq> []" using names pos by (cases "nat N") auto
  then have lastc: "last cs = Evaluate (ref until) (prev @ message_entries segs)"
    using c c' by (metis last_appendR last_snoc)
  have len: "length segs = 2 * nat N"
    using roles by (rule length_of_roles)
  have "userSimulation_loop user until agent prev N 0 [] \<sigma> =
          (Inr (segs @ [Eval until (Inr (last rs))]), \<sigma>')"
    using loop_turns [OF ts pos _ bl, of 0 N] positive by simp
  then have "userSimulation user max' until agent prev \<sigma> =
          (Inr (segs @ [Eval until (Inr (last rs))]), \<sigma>')"
    by (simp add: userSimulation_def N)
  then show ?thesis using len roles lastr w c names lastc by blast
qed

theorem userSimulation_exhausted_witness:
  "\<exists>segs r \<sigma>' w cs.
       userSimulation example_user (Some 2) never_satisfied example_agent [] start =
         (Inr (segs @ [Eval never_satisfied (Inr r)]), \<sigma>')
     \<and> length segs = 2 * nat 2
     \<and> map entry_role segs = concat (replicate (nat 2) [''user'', ''assistant''])
     \<and> status r \<noteq> Some Success
     \<and> evaluate never_satisfied ([] @ message_entries segs) w = (Inr r, world \<sigma>')
     \<and> calls \<sigma>' = calls start @ cs
     \<and> map call_name cs = concat (replicate (nat 2) [''respond'', ''invoke'', ''evaluate''])
     \<and> last cs = Evaluate (ref never_satisfied) ([] @ message_entries segs)"
  using userSimulation_exhausted
          [of example_user example_agent never_satisfied 2 "Some 2" "[]" start]
  by (simp add: example_user_def example_agent_def never_satisfied_def return_io_def)

text \<open>
  C1 as it is stated fails for \<open>max = 0\<close>: with a criterion that never succeeds, the
  segment returns no entry at all, where the claim has one evaluation entry.
\<close>

theorem userSimulation_max_zero_no_entry:
  "userSimulation example_user (Some 0) never_satisfied example_agent [] start = (Inr [], start)"
  by (simp add: userSimulation_def userSimulation_loop.simps)

text \<open>
  C2.  Let the first \<open>k\<close> passes through the body of the loop reach their end, \<open>until\<close>
  giving a status other than success in the first \<open>k - 1\<close> of them and success in pass
  \<open>k\<close>, where \<open>1 \<le> k \<le> max\<close>.  Then \<open>userSimulation\<close> returns the \<open>2k\<close> message entries of
  these passes and then one evaluation of \<open>until\<close>, already resolved to the successful
  result; it ends in the state in which pass \<open>k\<close> has ended, having made \<open>k\<close> calls of each
  kind and none for a later pass.
\<close>

theorem userSimulation_breaks:
  assumes "turns user until agent prev k [] \<sigma> = (Inr (segs, rs), \<sigma>')"
    and "0 < k"
    and "int k \<le> (case max' of None \<Rightarrow> 10 | Some m \<Rightarrow> m)"
    and "\<forall>r \<in> set (butlast rs). status r \<noteq> Some Success"
    and "status (last rs) = Some Success"
  shows "userSimulation user max' until agent prev \<sigma> =
           (Inr (segs @ [Eval until (Inr (last rs))]), \<sigma>')
         \<and> length segs = 2 * k
         \<and> map entry_role segs = concat (replicate k [''user'', ''assistant''])
         \<and> (\<exists>cs. calls \<sigma>' = calls \<sigma> @ cs
               \<and> map call_name cs = concat (replicate k [''respond'', ''invoke'', ''evaluate'']))"
proof -
  from turns_shape [OF assms(1)] obtain cs where
    roles: "map entry_role segs = concat (replicate k [''user'', ''assistant''])" and
    c: "calls \<sigma>' = calls \<sigma> @ cs" and
    names: "map call_name cs = concat (replicate k [''respond'', ''invoke'', ''evaluate''])"
    by auto
  have len: "length segs = 2 * k"
    using roles by (rule length_of_roles)
  have "userSimulation_loop user until agent prev (case max' of None \<Rightarrow> 10 | Some m \<Rightarrow> m) 0 [] \<sigma> =
          (Inr (segs @ [Eval until (Inr (last rs))]), \<sigma>')"
    using loop_turns [OF assms(1,2) _ assms(4)] assms(3,5) by simp
  then have "userSimulation user max' until agent prev \<sigma> =
          (Inr (segs @ [Eval until (Inr (last rs))]), \<sigma>')"
    by (simp add: userSimulation_def)
  then show ?thesis using len roles c names by blast
qed

theorem userSimulation_breaks_witness:
  "userSimulation example_user None long_enough example_agent [] start =
     (Inr [Message hello, Message hi, Message hello, Message hi,
           Eval long_enough
             (Inr \<lparr> output = 4, reason = Some ''counted'', error = None, status = Some Success \<rparr>)],
      \<lparr> world = (),
        calls = [Respond [], Invoke [hello], Evaluate 3 [hello, hi],
                 Respond [Assistant (AIMessage ''hello'' None None), User (UserMessage ''hi'')],
                 Invoke [hello, hi, hello], Evaluate 3 [hello, hi, hello, hi]] \<rparr>)"
proof -
  let ?r1 = "\<lparr> output = 2, reason = Some ''counted'', error = None, status = Some Failure \<rparr>"
  let ?r2 = "\<lparr> output = 4, reason = Some ''counted'', error = None, status = Some Success \<rparr>"
  let ?s = "\<lparr> world = (),
        calls = [Respond [], Invoke [hello], Evaluate 3 [hello, hi],
                 Respond [Assistant (AIMessage ''hello'' None None), User (UserMessage ''hi'')],
                 Invoke [hello, hi, hello], Evaluate 3 [hello, hi, hello, hi]] \<rparr>"
  have two: "2 = Suc (Suc 0)" by simp
  have t: "turns example_user long_enough example_agent [] 2 [] start =
             (Inr ([Message hello, Message hi, Message hello, Message hi], [?r1, ?r2]), ?s)"
    unfolding two
    by (simp add: turn_def Let_def bind_io_def return_io_def call_def message_entries_def
                  flatMap_def example_user_def example_agent_def long_enough_def start_def
                  hello_def hi_def)
  from userSimulation_breaks [OF t, of None] show ?thesis by simp
qed


text \<open>
  C10.  With a \<open>max\<close> that is zero or negative, \<open>userSimulation\<close> returns the empty list and
  leaves the state as it was: no call is made on the synthetic user, the agent or
  \<open>until\<close>.  A run of this segment alone gives a report with no entry and no result for
  \<open>until\<close>.
\<close>

theorem userSimulation_without_turns:
  assumes "m \<le> 0"
  shows "userSimulation user (Some m) until agent prev \<sigma> = (Inr [], \<sigma>)
    \<and> (\<exists>rep. runner_evaluate (AgentValue agent) [userSimulation user (Some m) until] \<sigma> = (Inr rep, \<sigma>)
          \<and> results rep = [] \<and> messages rep = []
          \<and> getResults rep until = [] \<and> getResult rep until = None)"
proof -
  have u: "userSimulation user (Some m) until agent prev' \<sigma> = (Inr [], \<sigma>)" for prev'
    using assms by (simp add: userSimulation_def userSimulation_loop.simps)
  show ?thesis
    by (simp add: u runner_evaluate_def resolve_agent_def bind_io_def return_io_def await_def
                  message_entries_simps Let_def getResults_def getResult_def flatMap_def)
qed

theorem userSimulation_without_turns_witness:
  "userSimulation example_user (Some (- 3)) long_enough example_agent [hello] start = (Inr [], start)
    \<and> (\<exists>rep. runner_evaluate (AgentValue example_agent)
                [userSimulation example_user (Some (- 3)) long_enough] start = (Inr rep, start)
          \<and> results rep = [] \<and> messages rep = []
          \<and> getResults rep long_enough = [] \<and> getResult rep long_enough = None)"
  using userSimulation_without_turns [of "- 3" example_user long_enough example_agent "[hello]" start]
  by simp

text \<open>
  C5.  On an empty list of previous messages \<open>aiEval(criterion)\<close> throws, without a call of
  the criterion and without an entry, and a run that begins with it is aborted with this
  error.  On a list that is not empty it calls the criterion once, on these messages, and
  returns one entry: the criterion with the promise of this call as it is, resolved or
  rejected.
\<close>

theorem aiEval_needs_messages:
  "aiEval criterion agent [] \<sigma> =
     (Inl (Error ''Criterion evaluation appears before any messages''), \<sigma>)
   \<and> runner_evaluate (AgentValue agent) (aiEval criterion # segments) \<sigma> =
       (Inl (Error ''Criterion evaluation appears before any messages''), \<sigma>)
   \<and> (previous \<noteq> [] \<longrightarrow>
        aiEval criterion agent previous \<sigma> =
          (Inr [Eval criterion (fst (evaluate criterion previous (world \<sigma>)))],
           \<lparr> world = snd (evaluate criterion previous (world \<sigma>)),
             calls = calls \<sigma> @ [Evaluate (ref criterion) previous] \<rparr>))"
  by (auto simp: aiEval_def call_def runner_evaluate_def resolve_agent_def bind_io_def
                 return_io_def message_entries_simps split: prod.splits)

theorem aiEval_needs_messages_witness:
  "aiEval unavailable example_agent [] start =
     (Inl (Error ''Criterion evaluation appears before any messages''), start)
   \<and> runner_evaluate (AgentValue example_agent) [aiEval unavailable, message hello] start =
       (Inl (Error ''Criterion evaluation appears before any messages''), start)
   \<and> aiEval unavailable example_agent [hello] start =
       (Inr [Eval unavailable (Inl (Error ''judge unavailable''))],
        \<lparr> world = (), calls = [Evaluate 4 [hello]] \<rparr>)"
  using aiEval_needs_messages [of unavailable example_agent start "[message hello]" "[hello]"]
  by (simp add: unavailable_def throw_io_def start_def)

text \<open>The view is made of the user and assistant messages, each with the other role.\<close>

lemma flip_role_swapped:
  "list_all2 swapped (filter (\<lambda>m. role m = ''user'' \<or> role m = ''assistant'') ms)
     (flatMap flip_role ms)"
proof (induction ms)
  case Nil
  show ?case by (simp add: flatMap_def)
next
  case (Cons m ms)
  then show ?case
    by (cases m) (simp_all add: flatMap_def swapped_def)
qed

text \<open>
  C8.  Whatever the collaborators do, the first call of a pass through the loop of
  \<open>userSimulation\<close> is the call of the synthetic user, and it is the only such call of the
  pass.  Its argument is made from the conversation so far (the previous messages, then
  the messages of the earlier passes): the user and assistant messages of the
  conversation, in their order, each with its content and the other role; system and tool
  messages are left out.
\<close>

theorem synthetic_user_sees_swapped_roles:
  "\<exists>view rest.
      calls (snd (turn user until agent prev segs \<sigma>)) = calls \<sigma> @ Respond view # rest
    \<and> ''respond'' \<notin> set (map call_name rest)
    \<and> list_all2 swapped
         (filter (\<lambda>m. role m = ''user'' \<or> role m = ''assistant'') (prev @ message_entries segs))
         view"
proof -
  let ?view = "flatMap flip_role (prev @ message_entries segs)"
  have "\<exists>rest. calls (snd (turn user until agent prev segs \<sigma>)) = calls \<sigma> @ Respond ?view # rest
          \<and> ''respond'' \<notin> set (map call_name rest)"
    by (auto simp: turn_def Let_def bind_io_def return_io_def call_def
             split: prod.splits sum.splits)
  then show ?thesis using flip_role_swapped by blast
qed

theorem synthetic_user_sees_swapped_roles_witness:
  "\<exists>view rest.
      calls (snd (turn example_user long_enough example_agent [System (SystemMessage ''be kind''), hello]
                    [Message hi] start)) = calls start @ Respond view # rest
    \<and> ''respond'' \<notin> set (map call_name rest)
    \<and> list_all2 swapped [hello, hi] view"
  using synthetic_user_sees_swapped_roles
          [of example_user long_enough example_agent "[System (SystemMessage ''be kind''), hello]"
              "[Message hi]" start]
  by (simp add: message_entries_simps hello_def hi_def)


section \<open>The report of a run\<close>

lemma run_segments_messages:
  "run_segments (map message ms) agent acc \<sigma> = (Inr (acc @ map Message ms), \<sigma>)"
proof (induction ms arbitrary: acc)
  case Nil
  show ?case by (simp add: return_io_def)
next
  case (Cons m ms)
  show ?case
    using Cons.IH [of "acc @ [Message m]"]
    by (simp add: message_def bind_io_def return_io_def)
qed

lemma message_entries_messages: "message_entries (map Message ms) = ms"
  by (induction ms) (simp_all add: message_entries_simps)

lemma settle_messages:
  "Promise_all (map (settle \<circ> Message) ms) = Inr (map EvaluatedMessage ms)"
  by (induction ms) simp_all

lemma with_status_messages: "flatMap with_status (map EvaluatedMessage ms) = []"
  by (induction ms) (simp_all add: flatMap_def)

lemma with_status_no_eval: "evalResult e = None \<Longrightarrow> with_status e = []"
  by (cases e) simp_all

text \<open>How the report of a run that returns one is made.\<close>

lemma runner_evaluate_report:
  assumes "runner_evaluate agent segments \<sigma> = (Inr rep, \<sigma>')"
  shows "\<exists>a \<sigma>1 promises.
           resolve_agent agent \<sigma> = (Inr a, \<sigma>1)
         \<and> run_segments segments a [] \<sigma>1 = (Inr promises, \<sigma>')
         \<and> Promise_all (map settle promises) = Inr (results rep)
         \<and> resultsByStatus rep = groupBy (flatMap with_status (results rep)) key_of
         \<and> messages rep = message_entries promises
         \<and> success rep = (resultsByStatus rep KFailure = [])"
  using assms
  by (auto simp: runner_evaluate_def bind_io_def return_io_def await_def Let_def
           split: prod.splits sum.splits)

lemma in_with_status:
  "(r, c) \<in> set (flatMap with_status es) \<longleftrightarrow> EvaluatedEval r c \<in> set es \<and> status r \<noteq> None"
proof (induction es)
  case Nil
  show ?case by (simp add: flatMap_def)
next
  case (Cons e es)
  then show ?case by (cases e) (auto simp: flatMap_def)
qed

text \<open>
  C3, as amended.  In the report of a run, the success bucket of \<open>resultsByStatus\<close> holds
  the evaluation entries of \<open>results\<close> whose status is success and the failure bucket
  those whose status is failure; an evaluation entry whose status is missing is in no
  bucket, and the unknown bucket is empty.
\<close>

theorem resultsByStatus_groups_determined:
  assumes "runner_evaluate agent segments \<sigma> = (Inr rep, \<sigma>')"
  shows "((r, c) \<in> set (resultsByStatus rep KSuccess) \<longleftrightarrow>
            EvaluatedEval r c \<in> set (results rep) \<and> status r = Some Success)
       \<and> ((r, c) \<in> set (resultsByStatus rep KFailure) \<longleftrightarrow>
            EvaluatedEval r c \<in> set (results rep) \<and> status r = Some Failure)
       \<and> (status r = None \<longrightarrow> (r, c) \<notin> set (resultsByStatus rep k))
       \<and> resultsByStatus rep KUnknown = []"
proof -
  from runner_evaluate_report [OF assms]
  have g: "resultsByStatus rep = groupBy (flatMap with_status (results rep)) key_of"
    by blast
  have "resultsByStatus rep KUnknown = []"
    by (auto simp: g groupBy_def filter_empty_conv in_with_status
             split: option.splits status.splits)
  moreover have "(r, c) \<in> set (resultsByStatus rep KSuccess) \<longleftrightarrow>
            EvaluatedEval r c \<in> set (results rep) \<and> status r = Some Success"
    by (auto simp: g groupBy_def in_with_status split: option.splits status.splits)
  moreover have "(r, c) \<in> set (resultsByStatus rep KFailure) \<longleftrightarrow>
            EvaluatedEval r c \<in> set (results rep) \<and> status r = Some Failure"
    by (auto simp: g groupBy_def in_with_status split: option.splits status.splits)
  moreover have "status r = None \<longrightarrow> (r, c) \<notin> set (resultsByStatus rep k)"
    by (auto simp: g groupBy_def in_with_status)
  ultimately show ?thesis by blast
qed


lemma example_run_report:
  "example_run = (Inr (projr (fst example_run)), snd example_run)
   \<and> results (projr (fst example_run)) =
       [EvaluatedMessage hello,
        EvaluatedEval \<lparr> output = 1, reason = Some ''not yet'', error = None,
                        status = Some Failure \<rparr> never_satisfied,
        EvaluatedEval \<lparr> output = 1, reason = None, error = None, status = None \<rparr> undetermined]"
  by (simp add: example_run_def runner_evaluate_def resolve_agent_def bind_io_def return_io_def
                await_def Let_def message_def aiEval_def call_def message_entries_simps
                never_satisfied_def undetermined_def start_def)

theorem resultsByStatus_groups_determined_witness:
  "((\<lparr> output = 1, reason = Some ''not yet'', error = None, status = Some Failure \<rparr>, never_satisfied)
      \<in> set (resultsByStatus (projr (fst example_run)) KFailure))
   \<and> ((\<lparr> output = 1, reason = None, error = None, status = None \<rparr>, undetermined)
      \<notin> set (resultsByStatus (projr (fst example_run)) KUnknown))
   \<and> resultsByStatus (projr (fst example_run)) KUnknown = []"
proof -
  have run: "runner_evaluate (AgentValue example_agent)
               [message hello, aiEval never_satisfied, aiEval undetermined] start =
             (Inr (projr (fst example_run)), snd example_run)"
    using example_run_report by (simp add: example_run_def)
  from resultsByStatus_groups_determined
         [OF run, of "\<lparr> output = 1, reason = Some ''not yet'', error = None,
                        status = Some Failure \<rparr>" never_satisfied KUnknown]
       resultsByStatus_groups_determined
         [OF run, of "\<lparr> output = 1, reason = None, error = None, status = None \<rparr>"
            undetermined KUnknown]
  show ?thesis
    using example_run_report by simp
qed

text \<open>
  C3 as it is stated fails on the example run: its third entry is an evaluation, with a
  status that is missing, and it is in none of the three buckets.
\<close>

theorem undetermined_result_in_no_bucket:
  "results (projr (fst example_run)) ! 2 =
     EvaluatedEval \<lparr> output = 1, reason = None, error = None, status = None \<rparr> undetermined
   \<and> resultsByStatus (projr (fst example_run)) KSuccess = []
   \<and> resultsByStatus (projr (fst example_run)) KFailure =
       [(\<lparr> output = 1, reason = Some ''not yet'', error = None, status = Some Failure \<rparr>,
         never_satisfied)]
   \<and> resultsByStatus (projr (fst example_run)) KUnknown = []"
  by (simp add: example_run_def runner_evaluate_def resolve_agent_def bind_io_def return_io_def
                await_def Let_def message_def aiEval_def call_def message_entries_simps
                never_satisfied_def undetermined_def start_def groupBy_def flatMap_def)

text \<open>
  C4.  When the agent is there (given, or made by its factory), a run of \<open>message\<close>
  segments alone makes no call and returns a report: its messages are the messages of
  the segments in their order, the success and the failure bucket are empty, and
  \<open>success\<close> is true.  In the report of any run, \<open>success\<close> is true exactly when the
  failure bucket is empty; it is true when no entry is an evaluation.
\<close>

theorem messages_only_and_success:
  assumes "resolve_agent agent \<sigma> = (Inr a, \<sigma>')"
    and "runner_evaluate agent2 segments \<sigma>2 = (Inr rep2, \<sigma>2')"
  shows "(\<exists>rep. runner_evaluate agent (map message ms) \<sigma> = (Inr rep, \<sigma>')
            \<and> messages rep = ms
            \<and> results rep = map EvaluatedMessage ms
            \<and> resultsByStatus rep KSuccess = []
            \<and> resultsByStatus rep KFailure = []
            \<and> success rep)
       \<and> (success rep2 \<longleftrightarrow> resultsByStatus rep2 KFailure = [])
       \<and> ((\<forall>e \<in> set (results rep2). evalResult e = None) \<longrightarrow> success rep2)"
proof -
  have first: "\<exists>rep. runner_evaluate agent (map message ms) \<sigma> = (Inr rep, \<sigma>')
            \<and> messages rep = ms
            \<and> results rep = map EvaluatedMessage ms
            \<and> resultsByStatus rep KSuccess = []
            \<and> resultsByStatus rep KFailure = []
            \<and> success rep"
    using assms(1)
    by (simp add: runner_evaluate_def bind_io_def return_io_def await_def Let_def
                  run_segments_messages settle_messages
                  message_entries_messages message_entries_simps with_status_messages groupBy_def)
  from runner_evaluate_report [OF assms(2)]
  have g: "resultsByStatus rep2 = groupBy (flatMap with_status (results rep2)) key_of"
    and s: "success rep2 = (resultsByStatus rep2 KFailure = [])"
    by blast+
  have "success rep2" if "\<forall>e \<in> set (results rep2). evalResult e = None"
  proof -
    have "flatMap with_status (results rep2) = []"
      using that by (simp add: flatMap_def with_status_no_eval)
    then show ?thesis by (simp add: s g groupBy_def)
  qed
  with first s show ?thesis by blast
qed


lemma greeting_run_report:
  "greeting_run = (Inr (projr (fst greeting_run)), snd greeting_run)
   \<and> results (projr (fst greeting_run)) = [EvaluatedMessage hello, EvaluatedMessage hi]"
  by (simp add: greeting_run_def runner_evaluate_def resolve_agent_def bind_io_def return_io_def
                await_def Let_def message_def agentResponse_def call_def message_entries_simps
                example_agent_def start_def hi_def)

theorem messages_only_and_success_witness:
  "(\<exists>rep. runner_evaluate (AgentValue example_agent) (map message [hello, hi]) start =
            (Inr rep, start)
          \<and> messages rep = [hello, hi]
          \<and> results rep = map EvaluatedMessage [hello, hi]
          \<and> resultsByStatus rep KSuccess = []
          \<and> resultsByStatus rep KFailure = []
          \<and> success rep)
   \<and> success (projr (fst greeting_run))
   \<and> (success (projr (fst example_run)) \<longleftrightarrow>
        resultsByStatus (projr (fst example_run)) KFailure = [])"
proof -
  have a: "resolve_agent (AgentValue example_agent) start = (Inr example_agent, start)"
    by (simp add: resolve_agent_def return_io_def)
  have g: "runner_evaluate (AgentValue example_agent) [message hello, agentResponse] start =
             (Inr (projr (fst greeting_run)), snd greeting_run)"
    using greeting_run_report by (simp add: greeting_run_def)
  have e: "runner_evaluate (AgentValue example_agent)
               [message hello, aiEval never_satisfied, aiEval undetermined] start =
             (Inr (projr (fst example_run)), snd example_run)"
    using example_run_report by (simp add: example_run_def)
  have ne: "\<forall>e \<in> set (results (projr (fst greeting_run))). evalResult e = None"
    using greeting_run_report by simp
  from messages_only_and_success [OF a g, of "[hello, hi]"]
       messages_only_and_success [OF a e, of "[hello, hi]"]
  show ?thesis
    using ne by blast
qed

text \<open>
  An evaluation entry comes with a call: the evaluations among the entries that a
  standard segment returns are of criteria that it has called, and the record of calls
  only grows.
\<close>

lemma loop_evals_called:
  "userSimulation_loop user until agent prev N i segs \<sigma> = (Inr out, \<sigma>') \<Longrightarrow>
     (\<exists>cs. calls \<sigma>' = calls \<sigma> @ cs)
   \<and> (\<forall>c p. Eval c p \<in> set out \<longrightarrow>
          Eval c p \<in> set segs \<or> (\<exists>ms. Evaluate (ref c) ms \<in> set (calls \<sigma>')))"
proof (induction user until agent prev N i segs \<sigma> rule: userSimulation_loop.induct)
  case (1 user until agent prev N i segs \<sigma>)
  show ?case
  proof (cases "i < N")
    case False
    with "1.prems" show ?thesis
      by (simp add: userSimulation_loop.simps)
  next
    case True
    have unfold: "userSimulation_loop user until agent prev N i segs \<sigma> =
        (case turn user until agent prev segs \<sigma> of
           (Inl e, \<sigma>1) \<Rightarrow> (Inl e, \<sigma>1)
         | (Inr (segs1, r), \<sigma>1) \<Rightarrow>
             if status r = Some Success \<or> i = N - 1
             then (Inr (segs1 @ [Eval until (Inr r)]), \<sigma>1)
             else userSimulation_loop user until agent prev N (i + 1) segs1 \<sigma>1)"
      using True
      by (subst userSimulation_loop.simps) (simp split: prod.splits sum.splits)
    from "1.prems" obtain segs1 r \<sigma>1 where
      t: "turn user until agent prev segs \<sigma> = (Inr (segs1, r), \<sigma>1)"
      unfolding unfold by (auto split: prod.splits sum.splits)
    from turn_result [OF t] obtain u a where
      s1: "segs1 = segs @ [Message (User u), Message (Assistant a)]" and
      c1: "calls \<sigma>1 = calls \<sigma> @
                 [Respond (flatMap flip_role (prev @ message_entries segs)),
                  Invoke (prev @ message_entries segs @ [User u]),
                  Evaluate (ref until) (prev @ message_entries segs1)]"
      by blast
    show ?thesis
    proof (cases "status r = Some Success \<or> i = N - 1")
      case True
      with "1.prems" t have "out = segs1 @ [Eval until (Inr r)]" "\<sigma>' = \<sigma>1"
        unfolding unfold by auto
      then show ?thesis using s1 c1 by auto
    next
      case False
      with "1.prems" t
      have rec: "userSimulation_loop user until agent prev N (i + 1) segs1 \<sigma>1 = (Inr out, \<sigma>')"
        unfolding unfold by auto
      from False have "status r \<noteq> Some Success" "i \<noteq> N - 1" by auto
      from "1.IH" [OF \<open>i < N\<close> t [symmetric] refl refl this rec]
      obtain cs where
        c2: "calls \<sigma>' = calls \<sigma>1 @ cs" and
        e2: "\<forall>c p. Eval c p \<in> set out \<longrightarrow>
               Eval c p \<in> set segs1 \<or> (\<exists>ms. Evaluate (ref c) ms \<in> set (calls \<sigma>'))"
        by blast
      show ?thesis using c1 c2 e2 s1 by auto
    qed
  qed
qed

lemma standard_evals_called:
  assumes "standard seg" and "seg agent prev \<sigma> = (Inr out, \<sigma>')"
  shows "(\<exists>cs. calls \<sigma>' = calls \<sigma> @ cs)
       \<and> (\<forall>c p. Eval c p \<in> set out \<longrightarrow> (\<exists>ms. Evaluate (ref c) ms \<in> set (calls \<sigma>')))"
  using assms
proof (cases rule: standard.cases)
  case (1 m)
  with assms(2) show ?thesis by (auto simp: message_def return_io_def)
next
  case 2
  with assms(2) show ?thesis
    by (auto simp: agentResponse_def bind_io_def return_io_def call_def
             split: prod.splits sum.splits)
next
  case (3 criterion)
  with assms(2) show ?thesis
    by (auto simp: aiEval_def call_def split: prod.splits if_splits)
next
  case (4 user max' until)
  with assms(2) show ?thesis
    using loop_evals_called [of user until agent prev _ 0 "[]" \<sigma> out \<sigma>']
    by (auto simp: userSimulation_def Let_def)
qed

lemma run_segments_evals_called:
  "\<forall>seg \<in> set segments. standard seg \<Longrightarrow>
   run_segments segments agent acc \<sigma> = (Inr out, \<sigma>') \<Longrightarrow>
     (\<exists>cs. calls \<sigma>' = calls \<sigma> @ cs)
   \<and> (\<forall>c p. Eval c p \<in> set out \<longrightarrow>
          Eval c p \<in> set acc \<or> (\<exists>ms. Evaluate (ref c) ms \<in> set (calls \<sigma>')))"
proof (induction segments arbitrary: acc \<sigma>)
  case Nil
  then show ?case by (simp add: return_io_def)
next
  case (Cons seg segments)
  from Cons.prems(2) obtain r \<sigma>1 where
    s: "seg agent (message_entries acc) \<sigma> = (Inr r, \<sigma>1)" and
    rest: "run_segments segments agent (acc @ r) \<sigma>1 = (Inr out, \<sigma>')"
    by (auto simp: bind_io_def split: prod.splits sum.splits)
  from Cons.prems(1) have "standard seg" and all: "\<forall>seg \<in> set segments. standard seg"
    by simp_all
  from standard_evals_called [OF \<open>standard seg\<close> s] obtain cs1 where
    c1: "calls \<sigma>1 = calls \<sigma> @ cs1" and
    e1: "\<forall>c p. Eval c p \<in> set r \<longrightarrow> (\<exists>ms. Evaluate (ref c) ms \<in> set (calls \<sigma>1))"
    by blast
  from Cons.IH [OF all rest] obtain cs2 where
    c2: "calls \<sigma>' = calls \<sigma>1 @ cs2" and
    e2: "\<forall>c p. Eval c p \<in> set out \<longrightarrow>
           Eval c p \<in> set (acc @ r) \<or> (\<exists>ms. Evaluate (ref c) ms \<in> set (calls \<sigma>'))"
    by blast
  have "\<exists>cs. calls \<sigma>' = calls \<sigma> @ cs" using c1 c2 by simp
  moreover have "Eval c p \<in> set acc \<or> (\<exists>ms. Evaluate (ref c) ms \<in> set (calls \<sigma>'))"
    if "Eval c p \<in> set out" for c p
  proof -
    from e2 that consider "Eval c p \<in> set acc" | "Eval c p \<in> set r"
      | "\<exists>ms. Evaluate (ref c) ms \<in> set (calls \<sigma>')" by auto
    then show ?thesis
    proof cases
      case 2
      with e1 obtain ms where "Evaluate (ref c) ms \<in> set (calls \<sigma>1)" by blast
      then show ?thesis using c2 by auto
    qed auto
  qed
  ultimately show ?case by blast
qed

lemma settled_eval:
  "Promise_all (map settle promises) = Inr es \<Longrightarrow>
   EvaluatedEval r c \<in> set es \<Longrightarrow> Eval c (Inr r) \<in> set promises"
proof (induction promises arbitrary: es)
  case Nil
  then show ?case by simp
next
  case (Cons p promises)
  from Cons.prems(1) obtain x xs where
    x: "settle p = Inr x" and xs: "Promise_all (map settle promises) = Inr xs" and
    res: "es = x # xs"
    by (auto split: sum.splits)
  from Cons.prems(2) res consider "x = EvaluatedEval r c" | "EvaluatedEval r c \<in> set xs"
    by auto
  then show ?case
  proof cases
    case 1
    with x have "p = Eval c (Inr r)"
      by (cases p) (auto split: sum.splits)
    then show ?thesis by simp
  next
    case 2
    from Cons.IH [OF xs 2] show ?thesis by simp
  qed
qed

text \<open>
  C9.  In a run of standard segments, let the criterion (the object of this identity)
  never be evaluated: no call of its identity is on record when the run ends.  Then on the
  report of the run \<open>getResults\<close> gives the empty list, \<open>getResult\<close> gives nothing, and
  \<open>getResultOrThrow\<close> throws an error whose message ends in the name of the criterion.  The
  lookups find an entry by the identity of its criterion: a criterion of the same
  identity has the same lookups.
\<close>

theorem lookup_of_unevaluated_criterion:
  assumes "runner_evaluate agent segments \<sigma> = (Inr rep, \<sigma>')"
    and "\<forall>seg \<in> set segments. standard seg"
    and "\<forall>ms. Evaluate (ref criterion) ms \<notin> set (calls \<sigma>')"
  shows "getResults rep criterion = []
       \<and> getResult rep criterion = None
       \<and> getResultOrThrow rep criterion =
           Inl (Error (''Cannot find results for criterion '' @ name criterion))
       \<and> (ref c' = ref criterion \<longrightarrow>
            getResults rep c' = getResults rep criterion
          \<and> getResult rep c' = getResult rep criterion)"
proof -
  from runner_evaluate_report [OF assms(1)] obtain a \<sigma>1 promises where
    run: "run_segments segments a [] \<sigma>1 = (Inr promises, \<sigma>')" and
    settled: "Promise_all (map settle promises) = Inr (results rep)"
    by blast
  from run_segments_evals_called [OF assms(2) run]
  have called: "\<forall>c p. Eval c p \<in> set promises \<longrightarrow>
                  (\<exists>ms. Evaluate (ref c) ms \<in> set (calls \<sigma>'))"
    by simp
  have entry: "ref c \<noteq> ref criterion" if "EvaluatedEval r c \<in> set (results rep)" for r c
  proof
    assume "ref c = ref criterion"
    moreover from settled_eval [OF settled that] called
    obtain ms where "Evaluate (ref c) ms \<in> set (calls \<sigma>')" by blast
    ultimately show False using assms(3) by simp
  qed
  have no: "\<not> is_eval_of criterion e" if "e \<in> set (results rep)" for e
    by (cases e) (use that entry in auto)
  have same: "is_eval_of c' e = is_eval_of criterion e" if "ref c' = ref criterion" for e
    by (cases e) (use that in auto)
  have r: "getResults rep criterion = []"
    using no by (simp add: getResults_def flatMap_def)
  have f: "find (is_eval_of criterion) (results rep) = None"
    using no by (simp add: find_None_iff)
  then have g: "getResult rep criterion = None"
    by (simp add: getResult_def)
  have "getResults rep c' = getResults rep criterion \<and> getResult rep c' = getResult rep criterion"
    if "ref c' = ref criterion"
  proof -
    have "is_eval_of c' = is_eval_of criterion"
      using same [OF that] by (rule ext)
    then show ?thesis by (simp add: getResults_def getResult_def)
  qed
  with r g show ?thesis by (simp add: getResultOrThrow_def)
qed

lemma example_run_calls:
  "calls (snd example_run) = [Evaluate 1 [hello], Evaluate 2 [hello]]"
  by (simp add: example_run_def runner_evaluate_def resolve_agent_def bind_io_def return_io_def
                await_def Let_def message_def aiEval_def call_def message_entries_simps
                never_satisfied_def undetermined_def start_def)

theorem lookup_of_unevaluated_criterion_witness:
  "getResults (projr (fst example_run)) long_enough = []
   \<and> getResult (projr (fst example_run)) long_enough = None
   \<and> getResultOrThrow (projr (fst example_run)) long_enough =
       Inl (Error ''Cannot find results for criterion long enough'')"
proof -
  have run: "runner_evaluate (AgentValue example_agent)
               [message hello, aiEval never_satisfied, aiEval undetermined] start =
             (Inr (projr (fst example_run)), snd example_run)"
    using example_run_report by (simp add: example_run_def)
  have std: "\<forall>seg \<in> set [message hello, aiEval never_satisfied, aiEval undetermined :: (nat, unit) segment].
               standard seg"
    by (simp add: standard.intros)
  have never: "\<forall>ms. Evaluate (ref long_enough) ms \<notin> set (calls (snd example_run))"
    by (simp add: example_run_calls long_enough_def)
  from lookup_of_unevaluated_criterion [OF run std never, of long_enough]
  show ?thesis by (simp add: long_enough_def)
qed


end
